theory Spec2Isabelle
  imports Main "HOL-Library.Sublist"
begin

section \<open>Python string operations\<close>

text \<open>
  A Python \<open>str\<close> is modelled as a \<open>string\<close>: one \<open>char\<close> per code point, so
  the texts range over the code points 0 to 255 and \<open>length\<close> is Python's \<open>len\<close>.
\<close>

definition nl :: char where
  "nl = CHR 0x0A"

text \<open>\<open>str.isspace\<close> on one character: the white space of the range 0 to 255.\<close>

definition isspace :: "char \<Rightarrow> bool" where
  "isspace c =
     (let n = (of_char c :: nat)
      in (9 \<le> n \<and> n \<le> 13) \<or> (28 \<le> n \<and> n \<le> 32) \<or> n = 133 \<or> n = 160)"

definition lstrip :: "string \<Rightarrow> string" where
  "lstrip s = dropWhile isspace s"

definition rstrip :: "string \<Rightarrow> string" where
  "rstrip s = rev (dropWhile isspace (rev s))"

text \<open>\<open>s.strip()\<close>\<close>

definition strip :: "string \<Rightarrow> string" where
  "strip s = lstrip (rstrip s)"

text \<open>\<open>s.split(sep)\<close> for a one-character separator: never the empty list.\<close>

fun split_char :: "char \<Rightarrow> string \<Rightarrow> string list" where
  "split_char sep [] = [[]]"
| "split_char sep (c # cs) =
     (if c = sep then [] # split_char sep cs
      else (case split_char sep cs of [] \<Rightarrow> [[c]] | l # ls \<Rightarrow> (c # l) # ls))"

text \<open>\<open>sep.join(xs)\<close>\<close>

fun join :: "string \<Rightarrow> string list \<Rightarrow> string" where
  "join sep [] = []"
| "join sep [x] = x"
| "join sep (x # y # ys) = x @ sep @ join sep (y # ys)"

text \<open>\<open>sub in s\<close>\<close>

fun contains :: "string \<Rightarrow> string \<Rightarrow> bool" where
  "contains sub [] = (sub = [])"
| "contains sub (c # cs) = (prefix sub (c # cs) \<or> contains sub cs)"

text \<open>
  \<open>s.replace(old, new)\<close>: the occurrences of \<open>old\<close> are found from the left and do
  not overlap. \<open>replace_from\<close> is the scan for a non-empty \<open>old\<close>; with an empty
  \<open>old\<close> Python puts \<open>new\<close> before every character and at the end.
\<close>

function replace_from :: "string \<Rightarrow> string \<Rightarrow> string \<Rightarrow> string" where
  "replace_from old new [] = []"
| "replace_from old new (c # cs) =
     (if old \<noteq> [] \<and> prefix old (c # cs)
      then new @ replace_from old new (drop (length old) (c # cs))
      else c # replace_from old new cs)"
  by pat_completeness auto
termination
  by (relation "measure (\<lambda>(old, new, s). length s)") auto

definition replace :: "string \<Rightarrow> string \<Rightarrow> string \<Rightarrow> string" where
  "replace old new s =
     (if old = [] then new @ concat (map (\<lambda>c. c # new) s) else replace_from old new s)"

section \<open>parser.py: CustomPDFParser\<close>

subsection \<open>\<open>_clean_text\<close>\<close>

text \<open>One round of the \<open>for line in lines\<close> loop, on the list \<open>cleaned_lines\<close>.\<close>

definition clean_step :: "string list \<Rightarrow> string \<Rightarrow> string list" where
  "clean_step cleaned_lines raw_line =
     (let line = strip raw_line
      in if line \<noteq> [] then cleaned_lines @ [line]
         else if cleaned_lines \<noteq> [] \<and> last cleaned_lines \<noteq> [] then cleaned_lines @ [[]]
         else cleaned_lines)"

lemma replace_from_length_le:
  "length new \<le> length old \<Longrightarrow> length (replace_from old new s) \<le> length s"
proof (induction old new s rule: replace_from.induct)
  case (1 old new)
  then show ?case by simp
next
  case (2 old new c cs)
  show ?case
  proof (cases "old \<noteq> [] \<and> prefix old (c # cs)")
    case True
    then have "length old \<le> length (c # cs)"
      using prefix_length_le [of old "c # cs"] by simp
    moreover from True 2
    have "length (replace_from old new (drop (length old) (c # cs))) \<le> length (c # cs) - length old"
      by simp
    ultimately show ?thesis using True 2 by simp
  next
    case False
    with 2 show ?thesis by auto
  qed
qed

lemma replace_from_length_less:
  "length new < length old \<Longrightarrow> contains old s \<Longrightarrow> length (replace_from old new s) < length s"
proof (induction old new s rule: replace_from.induct)
  case (1 old new)
  then show ?case by simp
next
  case (2 old new c cs)
  show ?case
  proof (cases "old \<noteq> [] \<and> prefix old (c # cs)")
    case True
    then have "length old \<le> length (c # cs)"
      using prefix_length_le [of old "c # cs"] by simp
    moreover
    have "length (replace_from old new (drop (length old) (c # cs))) \<le> length (c # cs) - length old"
      using replace_from_length_le [of new old "drop (length old) (c # cs)"] 2 by simp
    ultimately show ?thesis using True 2 by simp
  next
    case False
    with 2 have "contains old cs" by auto
    with False 2 show ?thesis by auto
  qed
qed

text \<open>
  The loop \<open>while '\n\n\n' in cleaned_text: cleaned_text = cleaned_text.replace('\n\n\n', '\n\n')\<close>.
  Every round shortens the text, so the loop ends.
\<close>

function collapse_blank_lines :: "string \<Rightarrow> string" where
  "collapse_blank_lines cleaned_text =
     (if contains [nl, nl, nl] cleaned_text
      then collapse_blank_lines (replace [nl, nl, nl] [nl, nl] cleaned_text)
      else cleaned_text)"
  by pat_completeness auto
termination
proof (relation "measure length")
  show "wf (measure length)" by simp
next
  fix cleaned_text
  assume "contains [nl, nl, nl] cleaned_text"
  then show "(replace [nl, nl, nl] [nl, nl] cleaned_text, cleaned_text) \<in> measure length"
    using replace_from_length_less [of "[nl, nl]" "[nl, nl, nl]" cleaned_text]
    by (simp add: replace_def)
qed

declare collapse_blank_lines.simps [simp del]

definition clean_text :: "string \<Rightarrow> string" where
  "clean_text text_in =
     (if text_in = [] then []
      else
        let lines = split_char nl text_in;
            cleaned_lines = foldl clean_step [] lines;
            cleaned_text = join [nl] cleaned_lines
        in strip (collapse_blank_lines cleaned_text))"

subsection \<open>Pages\<close>

text \<open>
  The parser's options. The attribute \<open>remove_headers_footers\<close> is the field
  \<open>remove_headers_footers_opt\<close>: the method of that name keeps it.
\<close>

record config =
  extract_images :: bool
  preserve_layout :: bool
  remove_headers_footers_opt :: bool
  min_text_length :: int

text \<open>
  What pypdf gives for one page: the result of \<open>extract_text\<close> in the layout mode and
  in the plain mode (\<open>Inl\<close> the message of the exception it raises), the page's rotation
  and media box, and what \<open>_extract_image_info\<close> collects from it.
\<close>

record image_info =
  image_index :: nat
  image_name :: string

record pdf_page =
  layout_text :: "string + string"
  plain_text :: "string + string"
  page_rotation :: int
  page_mediabox :: string
  page_images :: "image_info list"

text \<open>The dictionary \<open>metadata\<close> of a page: a key that is absent is \<open>None\<close>.\<close>

record page_metadata =
  page_number :: nat
  rotation :: "int option"
  mediabox :: "string option"
  images :: "image_info list option"
  page_error :: "string option"

text \<open>The dictionary of one page, with its keys \<open>text\<close>, \<open>metadata\<close> and \<open>word_count\<close>.\<close>

record page_data =
  page_text :: string
  metadata :: page_metadata
  word_count :: nat

text \<open>\<open>s.split()\<close>: the words between runs of white space; \<open>w\<close> is the word being read.\<close>

fun split_ws_from :: "string \<Rightarrow> string \<Rightarrow> string list" where
  "split_ws_from w [] = (if w = [] then [] else [w])"
| "split_ws_from w (c # cs) =
     (if isspace c then (if w = [] then split_ws_from [] cs else w # split_ws_from [] cs)
      else split_ws_from (w @ [c]) cs)"

definition split_ws :: "string \<Rightarrow> string list" where
  "split_ws s = split_ws_from [] s"

text \<open>\<open>extract_text_from_page\<close>: the \<open>except\<close> branch is the case \<open>Inl\<close>.\<close>

definition extract_text_from_page :: "config \<Rightarrow> pdf_page \<Rightarrow> nat \<Rightarrow> page_data" where
  "extract_text_from_page cfg page page_num =
     (case (if preserve_layout cfg then layout_text page else plain_text page) of
        Inr raw \<Rightarrow>
          (let txt = clean_text raw
           in \<lparr>page_text = txt,
               metadata = \<lparr>page_number = page_num + 1,
                            rotation = Some (page_rotation page),
                            mediabox = Some (page_mediabox page),
                            images = (if extract_images cfg then Some (page_images page) else None),
                            page_error = None\<rparr>,
               word_count = (if txt \<noteq> [] then length (split_ws txt) else 0)\<rparr>)
      | Inl e \<Rightarrow>
          \<lparr>page_text = [],
           metadata = \<lparr>page_number = page_num + 1, rotation = None, mediabox = None,
                        images = None, page_error = Some e\<rparr>,
           word_count = 0\<rparr>)"

subsection \<open>\<open>_remove_headers_footers\<close>\<close>

text \<open>
  The method changes the dictionaries of its argument in place, so the pages live in a
  store: \<open>pages_data\<close> is a list of addresses, and the method returns the store it
  leaves and the list it was given.
\<close>

type_synonym addr = nat
type_synonym store = "addr \<Rightarrow> page_data"

definition first_line :: "string \<Rightarrow> string" where
  "first_line t = (if t \<noteq> [] then hd (split_char nl t) else [])"

definition last_line :: "string \<Rightarrow> string" where
  "last_line t = (if t \<noteq> [] then last (split_char nl t) else [])"

text \<open>
  The candidates: the lines of \<open>set(first_lines)\<close> that stand on more than half of the
  pages (\<open>count > len * 0.5\<close>) and are not blank. Python gives no order for a set; the
  loops below only ask whether some candidate matches, so the order does not matter.
\<close>

definition frequent_lines :: "nat \<Rightarrow> string list \<Rightarrow> string list" where
  "frequent_lines n lines =
     filter (\<lambda>line. n < 2 * count_list lines line \<and> strip line \<noteq> []) (remdups lines)"

text \<open>\<open>for header in potential_headers: if lines[0].strip() == header.strip(): lines = lines[1:]; break\<close>\<close>

fun drop_header :: "string list \<Rightarrow> string list \<Rightarrow> string list" where
  "drop_header lines [] = lines"
| "drop_header lines (header # rest) =
     (if strip (hd lines) = strip header then tl lines else drop_header lines rest)"

text \<open>\<open>for footer in potential_footers: if lines[-1].strip() == footer.strip(): lines = lines[:-1]; break\<close>\<close>

fun drop_footer :: "string list \<Rightarrow> string list \<Rightarrow> string list" where
  "drop_footer lines [] = lines"
| "drop_footer lines (footer # rest) =
     (if strip (last lines) = strip footer then butlast lines else drop_footer lines rest)"

text \<open>The body of \<open>for page_data in pages_data\<close>: the new text of one page.\<close>

definition strip_page_text :: "string list \<Rightarrow> string list \<Rightarrow> string \<Rightarrow> string" where
  "strip_page_text potential_headers potential_footers t =
     (let lines = split_char nl t;
          lines = (if lines \<noteq> [] \<and> potential_headers \<noteq> []
                   then drop_header lines potential_headers else lines);
          lines = (if lines \<noteq> [] \<and> potential_footers \<noteq> []
                   then drop_footer lines potential_footers else lines)
      in strip (join [nl] lines))"

fun strip_pages :: "string list \<Rightarrow> string list \<Rightarrow> store \<Rightarrow> addr list \<Rightarrow> store" where
  "strip_pages hs fs h [] = h"
| "strip_pages hs fs h (r # rs) =
     strip_pages hs fs
       (h(r := (h r)\<lparr>page_text := strip_page_text hs fs (page_text (h r))\<rparr>)) rs"

definition remove_headers_footers :: "config \<Rightarrow> store \<Rightarrow> addr list \<Rightarrow> store \<times> addr list" where
  "remove_headers_footers cfg h pages_data =
     (if length pages_data < 3 \<or> \<not> remove_headers_footers_opt cfg then (h, pages_data)
      else
        let first_lines = map (\<lambda>r. first_line (page_text (h r))) pages_data;
            last_lines = map (\<lambda>r. last_line (page_text (h r))) pages_data;
            potential_headers = frequent_lines (length pages_data) first_lines;
            potential_footers = frequent_lines (length pages_data) last_lines
        in (strip_pages potential_headers potential_footers h pages_data, pages_data))"

subsection \<open>\<open>parse_pdf\<close>\<close>

datatype exn = OSError string | PdfReadError string | AttributeError string

text \<open>\<open>str(e)\<close>\<close>

fun str_exn :: "exn \<Rightarrow> string" where
  "str_exn (OSError m) = m"
| "str_exn (PdfReadError m) = m"
| "str_exn (AttributeError m) = m"

text \<open>
  What \<open>open\<close>, \<open>os.path\<close> and \<open>PdfReader\<close> give for a path: an exception, or the
  file's name and size, the document's own metadata and its pages.
\<close>

record pdf_document =
  doc_file_name :: string
  doc_file_size :: "nat option"
  doc_info :: "(string \<times> string) list"
  doc_pages :: "pdf_page list"

type_synonym file_system = "string \<Rightarrow> exn + pdf_document"

record document_metadata =
  file_path :: string
  file_name :: string
  file_size :: "nat option"
  info :: "(string \<times> string) list"

definition extract_document_metadata :: "pdf_document \<Rightarrow> string \<Rightarrow> document_metadata" where
  "extract_document_metadata pdf_reader pdf_path =
     \<lparr>file_path = pdf_path, file_name = doc_file_name pdf_reader,
      file_size = doc_file_size pdf_reader, info = doc_info pdf_reader\<rparr>"

record parsed_pdf =
  full_text :: string
  pages :: "page_data list"
  parsed_document_metadata :: document_metadata
  total_pages :: nat
  processed_pages :: nat
  total_words :: nat

text \<open>
  The pages \<open>parse_pdf\<close> keeps are new dictionaries: the one at position \<open>i\<close> of
  \<open>pages_data\<close> gets the address \<open>i\<close>. No other address is read.
\<close>

definition store_of :: "page_data list \<Rightarrow> store" where
  "store_of ps = (\<lambda>r. if r < length ps then ps ! r
     else \<lparr>page_text = [],
           metadata = \<lparr>page_number = 0, rotation = None, mediabox = None, images = None,
                        page_error = None\<rparr>,
           word_count = 0\<rparr>)"

text \<open>
  The loop \<open>for i, page in enumerate(pdf_reader.pages)\<close>: the pages that are kept, in
  the order of the document.
\<close>

definition collect_pages :: "config \<Rightarrow> pdf_page list \<Rightarrow> page_data list" where
  "collect_pages cfg pdf_pages =
     filter (\<lambda>pd. min_text_length cfg \<le> int (length (page_text pd)))
       (map (\<lambda>(i, page). extract_text_from_page cfg page i) (enumerate 0 pdf_pages))"

text \<open>An exception of \<open>open\<close> or of \<open>PdfReader\<close> is logged and raised again.\<close>

definition parse_pdf :: "file_system \<Rightarrow> config \<Rightarrow> string \<Rightarrow> exn + parsed_pdf" where
  "parse_pdf fs cfg pdf_path =
     (case fs pdf_path of
        Inl e \<Rightarrow> Inl e
      | Inr pdf_reader \<Rightarrow>
          (let doc_metadata = extract_document_metadata pdf_reader pdf_path;
               kept = collect_pages cfg (doc_pages pdf_reader);
               (h, pages_data) = remove_headers_footers cfg (store_of kept) [0..<length kept];
               ps = map h pages_data
           in Inr \<lparr>full_text = join [nl, nl] (filter (\<lambda>t. t \<noteq> []) (map page_text ps)),
                   pages = ps,
                   parsed_document_metadata = doc_metadata,
                   total_pages = length (doc_pages pdf_reader),
                   processed_pages = length pages_data,
                   total_words = sum_list (map word_count ps)\<rparr>))"

section \<open>credit_card_parser.py: CreditCardStatementParser\<close>

subsection \<open>\<open>_detect_issuer\<close>\<close>

text \<open>\<open>str.lower\<close> on one character of the range 0 to 255.\<close>

definition lower_char :: "char \<Rightarrow> char" where
  "lower_char c =
     (let n = (of_char c :: nat)
      in if (65 \<le> n \<and> n \<le> 90) \<or> (192 \<le> n \<and> n \<le> 222 \<and> n \<noteq> 215) then char_of (n + 32) else c)"

definition lower :: "string \<Rightarrow> string" where
  "lower s = map lower_char s"

text \<open>The dictionary \<open>issuers\<close>, in the order of its declaration (the order \<open>items()\<close> gives).\<close>

definition issuers :: "(string \<times> string list) list" where
  "issuers =
     [(''American Express'', [''american express'', ''amex'']),
      (''Chase'', [''chase'', ''jpmorgan chase'']),
      (''Citibank'', [''citibank'', ''citi card'']),
      (''Capital One'', [''capital one'']),
      (''Bank of America'', [''bank of america'', ''bankamericard''])]"

text \<open>The two loops: the first issuer one of whose keywords is in the text.\<close>

fun first_issuer :: "(string \<times> string list) list \<Rightarrow> string \<Rightarrow> string" where
  "first_issuer [] text_lower = ''Unknown''"
| "first_issuer ((issuer, keywords) # rest) text_lower =
     (if list_ex (\<lambda>keyword. contains keyword text_lower) keywords then issuer
      else first_issuer rest text_lower)"

definition detect_issuer :: "string \<Rightarrow> string" where
  "detect_issuer txt = first_issuer issuers (lower txt)"

subsection \<open>The field extractors\<close>

text \<open>
  The regular expressions of the source, each named by a constructor:
  \<^item> \<open>Card_Labelled\<close>: \<^verbatim>\<open>(?:card|account)\s*(?:number|ending|#)?\s*[:\s]*(?:x+|\*+)?(\d{4})\<close>
  \<^item> \<open>Card_Line_End\<close>: \<^verbatim>\<open>(\d{4})\s*$\<close>
  \<^item> \<open>Card_Masked_X\<close>: \<^verbatim>\<open>x{4,}\s*(\d{4})\<close>
  \<^item> \<open>Card_Masked_Star\<close>: \<^verbatim>\<open>\*{4,}\s*(\d{4})\<close>
  \<^item> \<open>Period_Numeric\<close>: \<^verbatim>\<open>(?:statement|billing)\s+(?:period|cycle|date)[:\s]+(\d{1,2}[/-]\d{1,2}[/-]\d{2,4})\s+(?:to|through|-)\s+(\d{1,2}[/-]\d{1,2}[/-]\d{2,4})\<close>
  \<^item> \<open>Period_Named\<close>: \<^verbatim>\<open>(?:from|period)[:\s]+(\w+\s+\d{1,2},?\s+\d{4})\s+(?:to|through)\s+(\w+\s+\d{1,2},?\s+\d{4})\<close>
  \<^item> \<open>Amount_Total\<close>: \<^verbatim>\<open>(?:total|new)\s+(?:amount\s+)?(?:due|balance)[:\s]+\$?([\d,]+\.\d{2})\<close>
  \<^item> \<open>Amount_Payment_Due\<close>: \<^verbatim>\<open>(?:payment\s+due)[:\s]+\$?([\d,]+\.\d{2})\<close>
  \<^item> \<open>Amount_Balance\<close>: \<^verbatim>\<open>(?:balance)[:\s]+\$?([\d,]+\.\d{2})\<close>
  \<^item> \<open>Due_Named\<close>: \<^verbatim>\<open>(?:payment\s+)?due\s+(?:date|by)[:\s]+(\w+\s+\d{1,2},?\s+\d{4})\<close>
  \<^item> \<open>Due_Numeric\<close>: \<^verbatim>\<open>(?:payment\s+)?due\s+(?:date|by)[:\s]+(\d{1,2}[/-]\d{1,2}[/-]\d{2,4})\<close>
  \<^item> \<open>Due_Pay_By\<close>: \<^verbatim>\<open>(?:pay\s+by)[:\s]+(\w+\s+\d{1,2},?\s+\d{4})\<close>
  \<^item> \<open>Transaction_Line\<close>: \<^verbatim>\<open>(\d{1,2}[/-]\d{1,2}[/-]\d{2,4})\s+([A-Za-z0-9\s\*\-]+?)\s+(\$?[\d,]+\.\d{2})\<close>
\<close>

datatype pattern =
  Card_Labelled | Card_Line_End | Card_Masked_X | Card_Masked_Star
| Period_Numeric | Period_Named
| Amount_Total | Amount_Payment_Due | Amount_Balance
| Due_Named | Due_Numeric | Due_Pay_By
| Transaction_Line

text \<open>
  The module \<open>re\<close> is not part of the repository: what it finds is a parameter.
  \<open>search1\<close> and \<open>search2\<close> are \<open>re.search\<close> with the flags of the call, giving the
  groups of the first match of a pattern with one and with two groups; \<open>findall3\<close> is
  \<open>re.findall\<close> for a pattern with three groups, giving the groups of every match in
  the order of the text.
\<close>

record regex_engine =
  search1 :: "pattern \<Rightarrow> string \<Rightarrow> string option"
  search2 :: "pattern \<Rightarrow> string \<Rightarrow> (string \<times> string) option"
  findall3 :: "pattern \<Rightarrow> string \<Rightarrow> (string \<times> string \<times> string) list"

text \<open>\<open>for pattern in patterns: match = re.search(...); if match: return ...\<close>\<close>

fun first_match :: "(pattern \<Rightarrow> string \<Rightarrow> 'g option) \<Rightarrow> pattern list \<Rightarrow> string \<Rightarrow> 'g option" where
  "first_match search [] txt = None"
| "first_match search (p # ps) txt =
     (case search p txt of Some g \<Rightarrow> Some g | None \<Rightarrow> first_match search ps txt)"

definition extract_card_last_4 :: "regex_engine \<Rightarrow> string \<Rightarrow> string option" where
  "extract_card_last_4 re txt =
     first_match (search1 re) [Card_Labelled, Card_Line_End, Card_Masked_X, Card_Masked_Star] txt"

definition extract_statement_period :: "regex_engine \<Rightarrow> string \<Rightarrow> string option" where
  "extract_statement_period re txt =
     map_option (\<lambda>(a, b). a @ '' to '' @ b)
       (first_match (search2 re) [Period_Numeric, Period_Named] txt)"

definition extract_total_amount_due :: "regex_engine \<Rightarrow> string \<Rightarrow> string option" where
  "extract_total_amount_due re txt =
     map_option (\<lambda>a. ''$'' @ a)
       (first_match (search1 re) [Amount_Total, Amount_Payment_Due, Amount_Balance] txt)"

definition extract_payment_due_date :: "regex_engine \<Rightarrow> string \<Rightarrow> string option" where
  "extract_payment_due_date re txt =
     first_match (search1 re) [Due_Named, Due_Numeric, Due_Pay_By] txt"

subsection \<open>\<open>_extract_transactions\<close>\<close>

record transaction =
  date :: string
  description :: string
  amount :: string

definition make_transaction :: "string \<times> string \<times> string \<Rightarrow> transaction" where
  "make_transaction m =
     (case m of (m0, m1, m2) \<Rightarrow>
        \<lparr>date = m0, description = strip m1,
         amount = (if prefix ''$'' m2 then m2 else ''$'' @ m2)\<rparr>)"

definition extract_transactions :: "regex_engine \<Rightarrow> string \<Rightarrow> transaction list" where
  "extract_transactions re txt =
     (let matches = findall3 re Transaction_Line txt
      in map make_transaction (take 5 matches))"

subsection \<open>\<open>parse_statement\<close>\<close>

text \<open>The options \<open>__init__\<close> gives the PDF parser.\<close>

definition statement_config :: config where
  "statement_config =
     \<lparr>extract_images = False, preserve_layout = True, remove_headers_footers_opt = False,
      min_text_length = 5\<rparr>"

text \<open>
  The result dictionary. The one of the \<open>except\<close> branch has the keys \<open>error\<close>,
  \<open>issuer\<close> and \<open>extraction_timestamp\<close> only; the one of the \<open>try\<close> branch has no key
  \<open>error\<close>.
\<close>

record statement_result =
  error :: "string option"
  issuer :: string
  card_last_4_digits :: "string option"
  statement_period :: "string option"
  total_amount_due :: "string option"
  payment_due_date :: "string option"
  transactions :: "transaction list"
  raw_metadata :: "document_metadata option"
  extraction_timestamp :: string

text \<open>
  \<open>datetime.now().isoformat()\<close> is the clock's reading, a parameter. The \<open>except\<close>
  branch calls \<open>time.now().isoformat()\<close> instead: \<open>time\<close> is the module of the standard
  library, imported by \<open>import time\<close>, and it has no attribute \<open>now\<close>, so the lookup
  raises \<open>AttributeError\<close>.
\<close>

definition datetime_now_isoformat :: "string \<Rightarrow> exn + string" where
  "datetime_now_isoformat clock = Inr clock"

definition time_now_isoformat :: "exn + string" where
  "time_now_isoformat = Inl (AttributeError ''module time has no attribute now'')"

definition parse_statement ::
  "file_system \<Rightarrow> regex_engine \<Rightarrow> string \<Rightarrow> string \<Rightarrow> exn + statement_result" where
  "parse_statement fs re clock pdf_path =
     (case parse_pdf fs statement_config pdf_path of
        Inr parsed_data \<Rightarrow>
          (let txt = full_text parsed_data;
               found = detect_issuer txt
           in case datetime_now_isoformat clock of
                Inl e \<Rightarrow> Inl e
              | Inr stamp \<Rightarrow>
                  Inr \<lparr>error = None,
                       issuer = found,
                       card_last_4_digits = extract_card_last_4 re txt,
                       statement_period = extract_statement_period re txt,
                       total_amount_due = extract_total_amount_due re txt,
                       payment_due_date = extract_payment_due_date re txt,
                       transactions = extract_transactions re txt,
                       raw_metadata = Some (parsed_document_metadata parsed_data),
                       extraction_timestamp = stamp\<rparr>)
      | Inl e \<Rightarrow>
          (case time_now_isoformat of
             Inl e' \<Rightarrow> Inl e'
           | Inr stamp \<Rightarrow>
               Inr \<lparr>error = Some (str_exn e),
                    issuer = ''Unknown'',
                    card_last_4_digits = None,
                    statement_period = None,
                    total_amount_due = None,
                    payment_due_date = None,
                    transactions = [],
                    raw_metadata = None,
                    extraction_timestamp = stamp\<rparr>))"

section \<open>Notions the claims use\<close>

text \<open>
  The texts a page's text can become when at most one line is taken from its start and
  at most one line from its end, and nothing else is changed.
\<close>

definition line_removals :: "string \<Rightarrow> string list" where
  "line_removals t =
     (let ls = split_char nl t
      in [join [nl] ls, join [nl] (tl ls), join [nl] (butlast ls), join [nl] (butlast (tl ls))])"


text \<open>
  The shape of the list \<open>cleaned_lines\<close> in \<open>_clean_text\<close>: every line is stripped and
  has no newline, the first line is not empty, and no two empty lines follow each other.
\<close>

definition tidy :: "string list \<Rightarrow> bool" where
  "tidy ls =
     (list_all (\<lambda>l. strip l = l \<and> nl \<notin> set l) ls
      \<and> (ls = [] \<or> hd ls \<noteq> [])
      \<and> successively (\<lambda>a b. a \<noteq> [] \<or> b \<noteq> []) ls)"


section \<open>Example inputs\<close>

text \<open>A page whose extracted text is \<open>t\<close> in both modes, and the dictionary of a page.\<close>

definition text_page :: "string \<Rightarrow> pdf_page" where
  "text_page t =
     \<lparr>layout_text = Inr t, plain_text = Inr t, page_rotation = 0, page_mediabox = ''[0, 0, 612, 792]'',
      page_images = []\<rparr>"

definition page_dict :: "nat \<Rightarrow> string \<Rightarrow> page_data" where
  "page_dict n t =
     \<lparr>page_text = t,
      metadata = \<lparr>page_number = n, rotation = Some 0, mediabox = Some ''[0, 0, 612, 792]'',
                   images = None, page_error = None\<rparr>,
      word_count = length (split_ws t)\<rparr>"

text \<open>A file system that has the one document \<open>statement.pdf\<close> with the given pages.\<close>

definition one_file :: "string list \<Rightarrow> file_system" where
  "one_file ts pdf_path =
     (if pdf_path = ''statement.pdf''
      then Inr \<lparr>doc_file_name = ''statement.pdf'', doc_file_size = Some 1024, doc_info = [],
                doc_pages = map text_page ts\<rparr>
      else Inl (OSError ''No such file or directory''))"

definition removal_on :: "int \<Rightarrow> config" where
  "removal_on n =
     \<lparr>extract_images = False, preserve_layout = True, remove_headers_footers_opt = True,
      min_text_length = n\<rparr>"

text \<open>A regular expression engine that finds the given transaction lines and nothing else.\<close>

definition fixed_matches :: "(string \<times> string \<times> string) list \<Rightarrow> regex_engine" where
  "fixed_matches ms =
     \<lparr>search1 = (\<lambda>p t. None), search2 = (\<lambda>p t. None), findall3 = (\<lambda>p t. ms)\<rparr>"

section \<open>Properties of the string operations\<close>

lemma contains_sublist: "contains sub s = sublist sub s"
  by (induction s) (auto simp: sublist_Cons_right)

lemma lstrip_suffix: "suffix (lstrip s) s"
  unfolding lstrip_def by (rule suffix_dropWhile)

lemma rstrip_prefix: "prefix (rstrip s) s"
  unfolding rstrip_def by (metis prefix_def takeWhile_dropWhile_id rev_append rev_rev_ident)

lemma strip_sublist: "sublist (strip s) s"
  unfolding strip_def
  using lstrip_suffix [of "rstrip s"] rstrip_prefix [of s]
  by (meson prefix_imp_sublist suffix_imp_sublist sublist_order.order.trans)

lemma contains_strip: "contains sub (strip s) \<Longrightarrow> contains sub s"
  using strip_sublist [of s] by (auto simp: contains_sublist intro: sublist_order.order.trans)

lemma lstrip_fixed: "lstrip s = s \<longleftrightarrow> s = [] \<or> \<not> isspace (hd s)"
  by (simp add: lstrip_def dropWhile_eq_self_iff)

lemma rstrip_fixed: "rstrip s = s \<longleftrightarrow> s = [] \<or> \<not> isspace (last s)"
proof -
  have "rstrip s = s \<longleftrightarrow> dropWhile isspace (rev s) = rev s"
    unfolding rstrip_def by (metis rev_rev_ident)
  then show ?thesis by (simp add: dropWhile_eq_self_iff hd_rev)
qed

lemma strip_fixed: "strip s = s \<longleftrightarrow> s = [] \<or> (\<not> isspace (hd s) \<and> \<not> isspace (last s))"
proof (cases "s = []")
  case True
  then show ?thesis by (simp add: strip_def lstrip_def rstrip_def)
next
  case False
  show ?thesis
  proof
    assume eq: "strip s = s"
    have "length (rstrip s) \<le> length s"
      using rstrip_prefix [of s] by (simp add: prefix_length_le)
    moreover have "length (lstrip (rstrip s)) \<le> length (rstrip s)"
      using lstrip_suffix [of "rstrip s"] by (simp add: suffix_length_le)
    moreover have "length (lstrip (rstrip s)) = length s"
      using eq by (simp add: strip_def)
    ultimately have "length (rstrip s) = length s" by simp
    then have r: "rstrip s = s"
      using rstrip_prefix [of s] by (metis append_eq_append_conv append_Nil2 length_append add_cancel_left_right length_0_conv prefix_def)
    with eq have "lstrip s = s" by (simp add: strip_def)
    with r False show "s = [] \<or> (\<not> isspace (hd s) \<and> \<not> isspace (last s))"
      by (simp add: lstrip_fixed rstrip_fixed)
  next
    assume "s = [] \<or> (\<not> isspace (hd s) \<and> \<not> isspace (last s))"
    with False have "rstrip s = s" "lstrip s = s"
      by (simp_all add: lstrip_fixed rstrip_fixed)
    then show "strip s = s" by (simp add: strip_def)
  qed
qed

lemma rstrip_last: "rstrip s \<noteq> [] \<Longrightarrow> \<not> isspace (last (rstrip s))"
  unfolding rstrip_def using hd_dropWhile [of isspace "rev s"] by (simp add: last_rev)

lemma lstrip_hd: "lstrip s \<noteq> [] \<Longrightarrow> \<not> isspace (hd (lstrip s))"
  unfolding lstrip_def by (rule hd_dropWhile)

lemma lstrip_last: "lstrip s \<noteq> [] \<Longrightarrow> last (lstrip s) = last s"
  using lstrip_suffix [of s] by (metis last_appendR suffix_def)

lemma strip_ends: "strip s \<noteq> [] \<Longrightarrow> \<not> isspace (hd (strip s)) \<and> \<not> isspace (last (strip s))"
proof -
  assume ne: "strip s \<noteq> []"
  then have "rstrip s \<noteq> []" by (auto simp: strip_def lstrip_def)
  with ne show ?thesis
    using lstrip_hd [of "rstrip s"] lstrip_last [of "rstrip s"] rstrip_last [of s]
    by (simp add: strip_def)
qed

lemma strip_idem: "strip (strip s) = strip s"
  using strip_ends [of s] by (auto simp: strip_fixed)

section \<open>Page-text normalisation\<close>

lemma collapse_blank_lines_no_triple: "\<not> contains [nl, nl, nl] (collapse_blank_lines s)"
proof (induction s rule: collapse_blank_lines.induct)
  case (1 s)
  then show ?case by (subst collapse_blank_lines.simps) simp
qed

text \<open>
  Claim C6. For every input, the text \<open>_clean_text\<close> returns has no three newline
  characters in a row, and the empty text is cleaned to the empty text.
\<close>

theorem clean_text_no_triple_newline:
  "\<not> contains [nl, nl, nl] (clean_text t) \<and> clean_text [] = []"
proof
  show "\<not> contains [nl, nl, nl] (clean_text t)"
  proof (cases "t = []")
    case True
    then show ?thesis by (simp add: clean_text_def)
  next
    case False
    then show ?thesis
      using collapse_blank_lines_no_triple contains_strip
      by (auto simp: clean_text_def Let_def)
  qed
  show "clean_text [] = []" by (simp add: clean_text_def)
qed

section \<open>Header and footer removal\<close>

text \<open>
  Claim C7. With fewer than three pages, or with the option \<open>remove_headers_footers\<close>
  off, \<open>_remove_headers_footers\<close> returns the list it was given and leaves every page as
  it was.
\<close>

theorem remove_headers_footers_noop:
  "length pages_data < 3 \<or> \<not> remove_headers_footers_opt cfg \<Longrightarrow>
   remove_headers_footers cfg h pages_data = (h, pages_data)"
  by (auto simp: remove_headers_footers_def)

theorem remove_headers_footers_noop_witness:
  "remove_headers_footers (removal_on 10)
     (store_of [page_dict 1 ''HEADER\<newline>first page'', page_dict 2 ''HEADER\<newline>second page'']) [0, 1]
   = (store_of [page_dict 1 ''HEADER\<newline>first page'', page_dict 2 ''HEADER\<newline>second page''], [0, 1])
   \<and> remove_headers_footers statement_config
     (store_of [page_dict 1 ''HEADER\<newline>one'', page_dict 2 ''HEADER\<newline>two'', page_dict 3 ''HEADER\<newline>three'']) [0, 1, 2]
   = (store_of [page_dict 1 ''HEADER\<newline>one'', page_dict 2 ''HEADER\<newline>two'', page_dict 3 ''HEADER\<newline>three''], [0, 1, 2])"
  using remove_headers_footers_noop [of "[0, 1]" "removal_on 10"]
    remove_headers_footers_noop [of "[0, 1, 2]" statement_config]
  by (simp add: statement_config_def)

section \<open>Field extraction\<close>

lemma make_transaction_fields:
  "strip (description (make_transaction m)) = description (make_transaction m)
   \<and> prefix ''$'' (amount (make_transaction m))"
  by (cases m) (simp add: make_transaction_def strip_idem)

text \<open>
  Claim C9. \<open>_extract_transactions\<close> returns at most five transactions, made from the
  first five matches in the order \<open>re.findall\<close> gives them; every description is
  stripped of white space at both ends and every amount starts with the dollar sign.
\<close>

theorem extract_transactions_cap:
  "length (extract_transactions re txt) \<le> 5
   \<and> extract_transactions re txt = map make_transaction (take 5 (findall3 re Transaction_Line txt))
   \<and> (\<forall>t \<in> set (extract_transactions re txt).
         strip (description t) = description t \<and> prefix ''$'' (amount t))"
  using make_transaction_fields by (auto simp: extract_transactions_def)

theorem extract_transactions_cap_witness:
  "extract_transactions
     (fixed_matches
        [(''01/02/2024'', ''COFFEE SHOP'', ''4.50''), (''01/03/2024'', ''GROCERY  '', ''$31.20''),
         (''01/04/2024'', ''FUEL'', ''40.00''), (''01/05/2024'', ''BOOKS'', ''12.99''),
         (''01/06/2024'', ''CINEMA'', ''$9.00''), (''01/07/2024'', ''PHARMACY'', ''7.25'')])
     ''statement text''
   = [\<lparr>date = ''01/02/2024'', description = ''COFFEE SHOP'', amount = ''$4.50''\<rparr>,
      \<lparr>date = ''01/03/2024'', description = ''GROCERY'', amount = ''$31.20''\<rparr>,
      \<lparr>date = ''01/04/2024'', description = ''FUEL'', amount = ''$40.00''\<rparr>,
      \<lparr>date = ''01/05/2024'', description = ''BOOKS'', amount = ''$12.99''\<rparr>,
      \<lparr>date = ''01/06/2024'', description = ''CINEMA'', amount = ''$9.00''\<rparr>]"
  using extract_transactions_cap
    [of "fixed_matches
        [(''01/02/2024'', ''COFFEE SHOP'', ''4.50''), (''01/03/2024'', ''GROCERY  '', ''$31.20''),
         (''01/04/2024'', ''FUEL'', ''40.00''), (''01/05/2024'', ''BOOKS'', ''12.99''),
         (''01/06/2024'', ''CINEMA'', ''$9.00''), (''01/07/2024'', ''PHARMACY'', ''7.25'')]"
      "''statement text''"]
  by (simp add: fixed_matches_def make_transaction_def strip_def lstrip_def rstrip_def isspace_def)

lemma contains_trans: "contains a b \<Longrightarrow> contains b c \<Longrightarrow> contains a c"
  by (auto simp: contains_sublist intro: sublist_order.order.trans)

lemma contains_lower: "contains sub s \<Longrightarrow> contains (lower sub) (lower s)"
  by (simp add: contains_sublist lower_def map_mono_sublist)

text \<open>
  Claim C10. A text that contains the word \<open>purchases\<close> and, in lower case, neither
  \<open>american express\<close> nor \<open>amex\<close>, is classified as \<open>Chase\<close>: the keyword
  \<open>chase\<close> is a part of \<open>purchases\<close>. The witness is such a text that names no
  issuer.
\<close>

theorem detect_issuer_purchases:
  "contains ''purchases'' txt \<Longrightarrow>
   \<not> contains ''american express'' (lower txt) \<Longrightarrow>
   \<not> contains ''amex'' (lower txt) \<Longrightarrow>
   detect_issuer txt = ''Chase''"
proof -
  assume p: "contains ''purchases'' txt"
    and a: "\<not> contains ''american express'' (lower txt)"
    and b: "\<not> contains ''amex'' (lower txt)"
  have "lower ''purchases'' = ''purchases''"
    by (simp add: lower_def lower_char_def)
  with p have "contains ''purchases'' (lower txt)"
    using contains_lower [of "''purchases''" "txt"] by simp
  moreover have "contains ''chase'' ''purchases''" by simp
  ultimately have "contains ''chase'' (lower txt)"
    using contains_trans [of "''chase''" "''purchases''" "lower txt"] by simp
  with a b show ?thesis by (simp add: detect_issuer_def issuers_def)
qed

theorem detect_issuer_purchases_witness:
  "detect_issuer ''Total purchases this period: 12'' = ''Chase''"
  using detect_issuer_purchases [of "''Total purchases this period: 12''"]
  by (simp add: lower_def lower_char_def)

section \<open>The failure path of \<open>parse_statement\<close>\<close>

text \<open>
  Claim C1 says that a failure inside \<open>parse_statement\<close> gives a result with the issuer
  \<open>Unknown\<close> and an error message, and that no exception leaves the method. The code
  does not do that: when \<open>parse_pdf\<close> raises, the \<open>except\<close> branch builds its
  dictionary with \<open>time.now()\<close>, which raises \<open>AttributeError\<close>, and that exception
  leaves \<open>parse_statement\<close>. The theorem is what the code does for every document that
  cannot be read.
\<close>

theorem parse_statement_failure_raises:
  "fs pdf_path = Inl e \<Longrightarrow>
   parse_statement fs re clock pdf_path = Inl (AttributeError ''module time has no attribute now'')"
  by (simp add: parse_statement_def parse_pdf_def time_now_isoformat_def)

theorem parse_statement_failure_raises_witness:
  "parse_statement (one_file []) (fixed_matches []) ''2024-01-31T09:00:00'' ''missing.pdf''
   = Inl (AttributeError ''module time has no attribute now'')"
  using parse_statement_failure_raises
    [of "one_file []" "''missing.pdf''" "OSError ''No such file or directory''"]
  by (simp add: one_file_def)

text \<open>A document that can be read gives a result: the \<open>try\<close> branch raises nothing.\<close>

lemma parse_statement_readable:
  "fs pdf_path = Inr reader \<Longrightarrow>
   \<exists>r. parse_statement fs re clock pdf_path = Inr r \<and> error r = None"
  by (simp add: parse_statement_def parse_pdf_def datetime_now_isoformat_def Let_def
      split: prod.splits)


section \<open>Evaluation of the examples\<close>

lemmas eval_strings = strip_def lstrip_def rstrip_def isspace_def nl_def

lemmas eval_clean = clean_text_def clean_step_def collapse_blank_lines.simps eval_strings

lemmas eval_removal = remove_headers_footers_def frequent_lines_def first_line_def
  last_line_def strip_page_text_def Let_def eval_strings

section \<open>What header and footer removal changes\<close>

lemma strip_pages_other: "r \<notin> set rs \<Longrightarrow> strip_pages hs fs h rs r = h r"
  by (induction rs arbitrary: h) auto

lemma strip_pages_metadata:
  "metadata (strip_pages hs fs h rs r) = metadata (h r)
   \<and> word_count (strip_pages hs fs h rs r) = word_count (h r)"
  by (induction rs arbitrary: h) auto

lemma strip_pages_distinct:
  "distinct rs \<Longrightarrow> r \<in> set rs \<Longrightarrow>
   page_text (strip_pages hs fs h rs r) = strip_page_text hs fs (page_text (h r))"
proof (induction rs arbitrary: h)
  case Nil
  then show ?case by simp
next
  case (Cons a rs)
  show ?case
  proof (cases "r = a")
    case True
    with Cons.prems have "r \<notin> set rs" by simp
    with True show ?thesis by (simp add: strip_pages_other)
  next
    case False
    with Cons show ?thesis by simp
  qed
qed

lemma remove_headers_footers_snd: "snd (remove_headers_footers cfg h rs) = rs"
  by (simp add: remove_headers_footers_def Let_def)

lemma remove_headers_footers_metadata:
  "metadata (fst (remove_headers_footers cfg h rs) r) = metadata (h r)
   \<and> word_count (fst (remove_headers_footers cfg h rs) r) = word_count (h r)"
  by (simp add: remove_headers_footers_def Let_def strip_pages_metadata)

lemma remove_headers_footers_other:
  "r \<notin> set rs \<Longrightarrow> fst (remove_headers_footers cfg h rs) r = h r"
  by (simp add: remove_headers_footers_def Let_def strip_pages_other)

text \<open>
  Claim C4 says that no stage changes the values it is given, and that the page records
  passed to header and footer removal are unchanged after the call. The method assigns
  \<open>page_data["text"]\<close> on the dictionaries of its argument and returns the same list,
  so the records of the caller are changed: \<open>remove_headers_footers_mutates\<close> is a
  store in which the record at address 0 differs after the call.

  As amended: header and footer removal returns the list it was given and changes the
  page records in place, and what it changes is their text only. The metadata and the
  word count of every record stay as they were, and a record that is not in the list
  is not touched.
\<close>

theorem remove_headers_footers_frame:
  "remove_headers_footers cfg h pages_data = (h', pages_data') \<Longrightarrow>
   pages_data' = pages_data
   \<and> (\<forall>r. r \<notin> set pages_data \<longrightarrow> h' r = h r)
   \<and> (\<forall>r. metadata (h' r) = metadata (h r) \<and> word_count (h' r) = word_count (h r))"
  using remove_headers_footers_snd [of cfg h pages_data]
    remove_headers_footers_metadata [of cfg h pages_data]
    remove_headers_footers_other [of _ pages_data cfg h]
  by simp

theorem remove_headers_footers_frame_witness:
  "snd (remove_headers_footers (removal_on 10)
          (store_of [page_dict 1 ''ACME BANK\<newline>first page'', page_dict 2 ''ACME BANK\<newline>second page'',
                     page_dict 3 ''ACME BANK\<newline>third page''])
          [0, 1, 2]) = [0, 1, 2]
   \<and> metadata (fst (remove_headers_footers (removal_on 10)
          (store_of [page_dict 1 ''ACME BANK\<newline>first page'', page_dict 2 ''ACME BANK\<newline>second page'',
                     page_dict 3 ''ACME BANK\<newline>third page''])
          [0, 1, 2]) 1) = metadata (page_dict 2 ''ACME BANK\<newline>second page'')
   \<and> word_count (fst (remove_headers_footers (removal_on 10)
          (store_of [page_dict 1 ''ACME BANK\<newline>first page'', page_dict 2 ''ACME BANK\<newline>second page'',
                     page_dict 3 ''ACME BANK\<newline>third page''])
          [0, 1, 2]) 1) = 4
   \<and> fst (remove_headers_footers (removal_on 10)
          (store_of [page_dict 1 ''ACME BANK\<newline>first page'', page_dict 2 ''ACME BANK\<newline>second page'',
                     page_dict 3 ''ACME BANK\<newline>third page''])
          [0, 1, 2]) 7
     = store_of [page_dict 1 ''ACME BANK\<newline>first page'', page_dict 2 ''ACME BANK\<newline>second page'',
                 page_dict 3 ''ACME BANK\<newline>third page''] 7"
  using remove_headers_footers_frame
    [of "removal_on 10"
        "store_of [page_dict 1 ''ACME BANK\<newline>first page'', page_dict 2 ''ACME BANK\<newline>second page'',
                   page_dict 3 ''ACME BANK\<newline>third page'']"
        "[0, 1, 2]"
        "fst (remove_headers_footers (removal_on 10)
          (store_of [page_dict 1 ''ACME BANK\<newline>first page'', page_dict 2 ''ACME BANK\<newline>second page'',
                     page_dict 3 ''ACME BANK\<newline>third page''])
          [0, 1, 2])"
        "snd (remove_headers_footers (removal_on 10)
          (store_of [page_dict 1 ''ACME BANK\<newline>first page'', page_dict 2 ''ACME BANK\<newline>second page'',
                     page_dict 3 ''ACME BANK\<newline>third page''])
          [0, 1, 2])"]
  by (simp add: store_of_def page_dict_def split_ws_def isspace_def)

theorem remove_headers_footers_mutates:
  "fst (remove_headers_footers (removal_on 10)
          (store_of [page_dict 1 ''ACME BANK\<newline>first page'', page_dict 2 ''ACME BANK\<newline>second page'',
                     page_dict 3 ''ACME BANK\<newline>third page''])
          [0, 1, 2]) 0
   \<noteq> store_of [page_dict 1 ''ACME BANK\<newline>first page'', page_dict 2 ''ACME BANK\<newline>second page'',
                 page_dict 3 ''ACME BANK\<newline>third page''] 0"
proof -
  have "page_text (fst (remove_headers_footers (removal_on 10)
          (store_of [page_dict 1 ''ACME BANK\<newline>first page'', page_dict 2 ''ACME BANK\<newline>second page'',
                     page_dict 3 ''ACME BANK\<newline>third page''])
          [0, 1, 2]) 0) = ''first page''"
    by (simp add: eval_removal removal_on_def store_of_def page_dict_def)
  moreover have "page_text (store_of [page_dict 1 ''ACME BANK\<newline>first page'', page_dict 2 ''ACME BANK\<newline>second page'',
                 page_dict 3 ''ACME BANK\<newline>third page''] 0) = ''ACME BANK\<newline>first page''"
    by (simp add: store_of_def page_dict_def)
  ultimately show ?thesis by auto
qed

lemma drop_header_cases: "drop_header ls hs = ls \<or> drop_header ls hs = tl ls"
  by (induction hs) auto

lemma drop_footer_cases: "drop_footer ls fs = ls \<or> drop_footer ls fs = butlast ls"
  by (induction fs) auto

lemma strip_page_text_removals:
  "strip_page_text hs fs t \<in> set (map strip (line_removals t))"
proof -
  define ls where "ls = split_char nl t"
  define a where "a = (if ls \<noteq> [] \<and> hs \<noteq> [] then drop_header ls hs else ls)"
  define b where "b = (if a \<noteq> [] \<and> fs \<noteq> [] then drop_footer a fs else a)"
  have a: "a = ls \<or> a = tl ls"
    using drop_header_cases [of ls hs] by (auto simp: a_def)
  have b: "b = a \<or> b = butlast a"
    using drop_footer_cases [of a fs] by (auto simp: b_def)
  have "strip_page_text hs fs t = strip (join [nl] b)"
    by (simp add: strip_page_text_def Let_def ls_def a_def b_def)
  moreover from a b
  have "b = ls \<or> b = tl ls \<or> b = butlast ls \<or> b = butlast (tl ls)" by auto
  ultimately show ?thesis by (auto simp: line_removals_def Let_def ls_def)
qed

lemma ex_blank_pages:
  "clean_text ''ACME BANK\<newline>\<newline>first page'' = ''ACME BANK\<newline>\<newline>first page''"
  "clean_text ''ACME BANK\<newline>\<newline>second page'' = ''ACME BANK\<newline>\<newline>second page''"
  "clean_text ''ACME BANK\<newline>\<newline>third page'' = ''ACME BANK\<newline>\<newline>third page''"
  by (simp_all add: eval_clean)

lemma ex_blank_removed:
  "page_text (fst (remove_headers_footers (removal_on 10)
      (store_of [page_dict 1 ''ACME BANK\<newline>\<newline>first page'', page_dict 2 ''ACME BANK\<newline>\<newline>second page'',
                 page_dict 3 ''ACME BANK\<newline>\<newline>third page''])
      [0, 1, 2]) 0) = ''first page''"
  by (simp add: eval_removal removal_on_def store_of_def page_dict_def)

text \<open>
  Claim C3 says that header and footer removal takes at most one line from the start
  and at most one line from the end of a page's text. The method ends with
  \<open>'\n'.join(lines).strip()\<close>, and \<open>strip\<close> also takes the blank lines that the
  removed line leaves at the end of the text: in \<open>header_removal_takes_two_lines\<close>
  three cleaned pages start with the header \<open>ACME BANK\<close> and a blank line, and the
  first page loses both lines.

  As amended: for a list of distinct page records, the new text of a page is its old
  text, or its old text with at most one line taken from the start and at most one
  from the end and then stripped of white space at both ends (which removes blank
  lines left there).
\<close>

theorem remove_headers_footers_lines:
  "distinct pages_data \<Longrightarrow> r \<in> set pages_data \<Longrightarrow>
   remove_headers_footers cfg h pages_data = (h', pages_data') \<Longrightarrow>
   page_text (h' r) = page_text (h r)
   \<or> page_text (h' r) \<in> set (map strip (line_removals (page_text (h r))))"
proof -
  assume d: "distinct pages_data" and r: "r \<in> set pages_data"
    and eq: "remove_headers_footers cfg h pages_data = (h', pages_data')"
  show ?thesis
  proof (cases "length pages_data < 3 \<or> \<not> remove_headers_footers_opt cfg")
    case True
    with eq show ?thesis by (auto simp: remove_headers_footers_def)
  next
    case False
    with eq obtain hs fs where "h' = strip_pages hs fs h pages_data"
      by (auto simp: remove_headers_footers_def Let_def)
    then have "page_text (h' r) = strip_page_text hs fs (page_text (h r))"
      using strip_pages_distinct [OF d r] by simp
    then show ?thesis using strip_page_text_removals [of hs fs "page_text (h r)"] by simp
  qed
qed

theorem remove_headers_footers_lines_witness:
  "page_text (fst (remove_headers_footers (removal_on 10)
      (store_of [page_dict 1 ''ACME BANK\<newline>\<newline>first page'', page_dict 2 ''ACME BANK\<newline>\<newline>second page'',
                 page_dict 3 ''ACME BANK\<newline>\<newline>third page''])
      [0, 1, 2]) 0)
   \<in> set (map strip (line_removals ''ACME BANK\<newline>\<newline>first page''))
   \<and> page_text (fst (remove_headers_footers (removal_on 10)
      (store_of [page_dict 1 ''ACME BANK\<newline>\<newline>first page'', page_dict 2 ''ACME BANK\<newline>\<newline>second page'',
                 page_dict 3 ''ACME BANK\<newline>\<newline>third page''])
      [0, 1, 2]) 0)
   \<noteq> ''ACME BANK\<newline>\<newline>first page''"
  using remove_headers_footers_lines
    [of "[0, 1, 2]" 0 "removal_on 10"
        "store_of [page_dict 1 ''ACME BANK\<newline>\<newline>first page'', page_dict 2 ''ACME BANK\<newline>\<newline>second page'',
                   page_dict 3 ''ACME BANK\<newline>\<newline>third page'']"
        "fst (remove_headers_footers (removal_on 10)
          (store_of [page_dict 1 ''ACME BANK\<newline>\<newline>first page'', page_dict 2 ''ACME BANK\<newline>\<newline>second page'',
                     page_dict 3 ''ACME BANK\<newline>\<newline>third page''])
          [0, 1, 2])"
        "snd (remove_headers_footers (removal_on 10)
          (store_of [page_dict 1 ''ACME BANK\<newline>\<newline>first page'', page_dict 2 ''ACME BANK\<newline>\<newline>second page'',
                     page_dict 3 ''ACME BANK\<newline>\<newline>third page''])
          [0, 1, 2])"]
    ex_blank_removed
  by (simp add: store_of_def page_dict_def)

theorem header_removal_takes_two_lines:
  "clean_text ''ACME BANK\<newline>\<newline>first page'' = ''ACME BANK\<newline>\<newline>first page''
   \<and> clean_text ''ACME BANK\<newline>\<newline>second page'' = ''ACME BANK\<newline>\<newline>second page''
   \<and> clean_text ''ACME BANK\<newline>\<newline>third page'' = ''ACME BANK\<newline>\<newline>third page''
   \<and> split_char nl ''ACME BANK\<newline>\<newline>first page'' = [''ACME BANK'', [], ''first page'']
   \<and> page_text (fst (remove_headers_footers (removal_on 10)
      (store_of [page_dict 1 ''ACME BANK\<newline>\<newline>first page'', page_dict 2 ''ACME BANK\<newline>\<newline>second page'',
                 page_dict 3 ''ACME BANK\<newline>\<newline>third page''])
      [0, 1, 2]) 0) = ''first page''
   \<and> ''first page'' \<notin> set (line_removals ''ACME BANK\<newline>\<newline>first page'')"
  using ex_blank_pages ex_blank_removed by (simp add: line_removals_def nl_def)

section \<open>The assembled document\<close>

lemma store_of_nth: "map (store_of ps) [0..<length ps] = ps"
  by (rule nth_equalityI) (simp_all add: store_of_def)

lemma extracted_page_number:
  "page_number (metadata (extract_text_from_page cfg page i)) = i + 1"
  by (simp add: extract_text_from_page_def Let_def split: sum.splits)

lemma enumerate_page_numbers:
  "map (\<lambda>p. page_number (metadata p))
     (map (\<lambda>(i, page). extract_text_from_page cfg page i) (enumerate n ps))
   = [n + 1..<n + 1 + length ps]"
proof (induction ps arbitrary: n)
  case Nil
  then show ?case by simp
next
  case (Cons p ps)
  have "[n + 1..<n + 1 + length (p # ps)] = (n + 1) # [Suc n + 1..<Suc n + 1 + length ps]"
    by (simp add: upt_rec)
  with Cons [of "Suc n"] show ?case by (simp add: extracted_page_number)
qed

lemma collect_pages_sorted:
  "sorted_wrt (<) (map (\<lambda>p. page_number (metadata p)) (collect_pages cfg ps))"
proof -
  let ?all = "map (\<lambda>(i, page). extract_text_from_page cfg page i) (enumerate 0 ps)"
  have "sorted_wrt (<) (map (\<lambda>p. page_number (metadata p)) ?all)"
    unfolding enumerate_page_numbers by (rule sorted_wrt_upt)
  then have "sorted_wrt (\<lambda>p q. page_number (metadata p) < page_number (metadata q)) ?all"
    by (simp add: sorted_wrt_map)
  then have "sorted_wrt (\<lambda>p q. page_number (metadata p) < page_number (metadata q))
               (collect_pages cfg ps)"
    unfolding collect_pages_def by (rule sorted_wrt_filter)
  then show ?thesis by (simp add: sorted_wrt_map)
qed

lemma parse_pdf_pages:
  assumes "parse_pdf fs cfg pdf_path = Inr d" and "fs pdf_path = Inr reader"
  shows "pages d = map (fst (remove_headers_footers cfg (store_of (collect_pages cfg (doc_pages reader)))
                         [0..<length (collect_pages cfg (doc_pages reader))]))
                    [0..<length (collect_pages cfg (doc_pages reader))]"
    and "full_text d = join [nl, nl] (filter (\<lambda>t. t \<noteq> []) (map page_text (pages d)))"
    and "processed_pages d = length (collect_pages cfg (doc_pages reader))"
  using assms remove_headers_footers_snd [of cfg "store_of (collect_pages cfg (doc_pages reader))"
      "[0..<length (collect_pages cfg (doc_pages reader))]"]
  by (auto simp: parse_pdf_def Let_def split: prod.splits)

lemma parse_pdf_metadata:
  assumes "parse_pdf fs cfg pdf_path = Inr d" and "fs pdf_path = Inr reader"
  shows "map metadata (pages d) = map metadata (collect_pages cfg (doc_pages reader))"
proof -
  let ?kept = "collect_pages cfg (doc_pages reader)"
  have "map metadata (pages d) = map (\<lambda>r. metadata (store_of ?kept r)) [0..<length ?kept]"
    using parse_pdf_pages(1) [OF assms] by (simp add: remove_headers_footers_metadata)
  also have "\<dots> = map metadata (map (store_of ?kept) [0..<length ?kept])" by simp
  finally show ?thesis by (simp only: store_of_nth)
qed

lemma parse_pdf_readable:
  "fs pdf_path = Inr reader \<Longrightarrow> parse_pdf fs cfg pdf_path = Inr (projr (parse_pdf fs cfg pdf_path))"
  by (simp add: parse_pdf_def Let_def split: prod.splits)

lemma collect_pages_min:
  "\<forall>p \<in> set (collect_pages cfg ps). min_text_length cfg \<le> int (length (page_text p))"
  by (simp add: collect_pages_def)

lemma parse_pdf_noop_pages:
  assumes "parse_pdf fs cfg pdf_path = Inr d" and "fs pdf_path = Inr reader"
    and "length (collect_pages cfg (doc_pages reader)) < 3 \<or> \<not> remove_headers_footers_opt cfg"
  shows "pages d = collect_pages cfg (doc_pages reader)"
proof -
  let ?kept = "collect_pages cfg (doc_pages reader)"
  have "fst (remove_headers_footers cfg (store_of ?kept) [0..<length ?kept]) = store_of ?kept"
    using assms(3) by (auto simp: remove_headers_footers_def)
  then show ?thesis using parse_pdf_pages(1) [OF assms(1,2)] by (simp add: store_of_nth)
qed

lemma ex_clean_pages:
  "clean_text ''ACME BANK\<newline>Page one text'' = ''ACME BANK\<newline>Page one text''"
  "clean_text ''tiny'' = ''tiny''"
  "clean_text ''ACME BANK\<newline>Page three'' = ''ACME BANK\<newline>Page three''"
  by (simp_all add: eval_clean)

text \<open>
  Claim C8. The full text of a parsed document is the texts of its pages that are not
  empty, joined by two newlines in the order of the pages; the pages are in the order
  of the document (their page numbers grow), and \<open>processed_pages\<close> is the number of
  pages in the list.
\<close>

theorem parse_pdf_full_text:
  "parse_pdf fs cfg pdf_path = Inr d \<Longrightarrow>
   full_text d = join [nl, nl] (filter (\<lambda>t. t \<noteq> []) (map page_text (pages d)))
   \<and> processed_pages d = length (pages d)
   \<and> sorted_wrt (<) (map (\<lambda>p. page_number (metadata p)) (pages d))"
proof -
  assume ok: "parse_pdf fs cfg pdf_path = Inr d"
  then obtain reader where rd: "fs pdf_path = Inr reader"
    by (cases "fs pdf_path") (auto simp: parse_pdf_def)
  have "map (\<lambda>p. page_number (metadata p)) (pages d)
        = map page_number (map metadata (pages d))" by simp
  also have "\<dots> = map (\<lambda>p. page_number (metadata p)) (collect_pages cfg (doc_pages reader))"
    by (simp add: parse_pdf_metadata [OF ok rd])
  finally have "sorted_wrt (<) (map (\<lambda>p. page_number (metadata p)) (pages d))"
    by (simp only: collect_pages_sorted)
  moreover have "processed_pages d = length (pages d)"
    using parse_pdf_pages(1,3) [OF ok rd] by simp
  ultimately show ?thesis using parse_pdf_pages(2) [OF ok rd] by simp
qed

theorem parse_pdf_full_text_witness:
  "full_text (projr (parse_pdf
       (one_file [''ACME BANK\<newline>Page one text'', ''tiny'', ''ACME BANK\<newline>Page three''])
       statement_config ''statement.pdf''))
   = ''ACME BANK\<newline>Page one text\<newline>\<newline>ACME BANK\<newline>Page three''
   \<and> processed_pages (projr (parse_pdf
       (one_file [''ACME BANK\<newline>Page one text'', ''tiny'', ''ACME BANK\<newline>Page three''])
       statement_config ''statement.pdf'')) = 2
   \<and> map (\<lambda>p. page_number (metadata p)) (pages (projr (parse_pdf
       (one_file [''ACME BANK\<newline>Page one text'', ''tiny'', ''ACME BANK\<newline>Page three''])
       statement_config ''statement.pdf''))) = [1, 3]"
proof -
  let ?fs = "one_file [''ACME BANK\<newline>Page one text'', ''tiny'', ''ACME BANK\<newline>Page three'']"
  let ?reader = "\<lparr>doc_file_name = ''statement.pdf'', doc_file_size = Some 1024, doc_info = [],
      doc_pages = map text_page [''ACME BANK\<newline>Page one text'', ''tiny'', ''ACME BANK\<newline>Page three'']\<rparr>"
  have rd: "?fs ''statement.pdf'' = Inr ?reader" by (simp add: one_file_def)
  have ok: "parse_pdf ?fs statement_config ''statement.pdf''
            = Inr (projr (parse_pdf ?fs statement_config ''statement.pdf''))"
    by (rule parse_pdf_readable) (rule rd)
  have off: "\<not> remove_headers_footers_opt statement_config"
    by (simp add: statement_config_def)
  have "collect_pages statement_config (doc_pages ?reader)
        = [extract_text_from_page statement_config (text_page ''ACME BANK\<newline>Page one text'') 0,
           extract_text_from_page statement_config (text_page ''ACME BANK\<newline>Page three'') 2]"
    by (simp add: collect_pages_def enumerate_eq_zip extract_text_from_page_def text_page_def
        statement_config_def ex_clean_pages upt_rec Let_def)
  then have "pages (projr (parse_pdf ?fs statement_config ''statement.pdf''))
        = [extract_text_from_page statement_config (text_page ''ACME BANK\<newline>Page one text'') 0,
           extract_text_from_page statement_config (text_page ''ACME BANK\<newline>Page three'') 2]"
    using parse_pdf_noop_pages [OF ok rd] off by simp
  then show ?thesis
    using parse_pdf_full_text [OF ok]
    by (simp add: extract_text_from_page_def text_page_def statement_config_def ex_clean_pages nl_def Let_def)
qed

lemma ex_conf: "clean_text ''ACME BANK STATEMENT'' = ''ACME BANK STATEMENT''"
  by (simp add: eval_clean)

lemmas eval_parse = parse_pdf_def collect_pages_def extract_text_from_page_def one_file_def
  text_page_def removal_on_def store_of_def enumerate_eq_zip split_ws_def
  extract_document_metadata_def

text \<open>
  Claim C2 says that every page of the document \<open>parse_pdf\<close> returns has a text of at
  least \<open>min_text_length\<close> characters. The pages are chosen before header and footer
  removal, which shortens their texts afterwards: in \<open>retained_page_below_minimum\<close>
  three pages hold the one line \<open>ACME BANK STATEMENT\<close>, all three are kept with the
  minimum 10, and all three end with the empty text.

  As amended: every page is chosen with a cleaned text of at least \<open>min_text_length\<close>
  characters, the document returned has exactly the chosen pages (the same metadata, in
  the same order), and when header and footer removal does nothing (fewer than three
  pages, or the option off) every page of the document returned has a text of at least
  \<open>min_text_length\<close> characters.
\<close>

theorem parse_pdf_retained_pages:
  "parse_pdf fs cfg pdf_path = Inr d \<Longrightarrow> fs pdf_path = Inr reader \<Longrightarrow>
   (\<forall>p \<in> set (collect_pages cfg (doc_pages reader)).
       min_text_length cfg \<le> int (length (page_text p)))
   \<and> map metadata (pages d) = map metadata (collect_pages cfg (doc_pages reader))
   \<and> (length (pages d) < 3 \<or> \<not> remove_headers_footers_opt cfg \<longrightarrow>
        (\<forall>p \<in> set (pages d). min_text_length cfg \<le> int (length (page_text p))))"
proof -
  assume ok: "parse_pdf fs cfg pdf_path = Inr d" and rd: "fs pdf_path = Inr reader"
  let ?kept = "collect_pages cfg (doc_pages reader)"
  have m: "map metadata (pages d) = map metadata ?kept" by (rule parse_pdf_metadata [OF ok rd])
  then have len: "length (pages d) = length ?kept" by (metis length_map)
  have "\<forall>p \<in> set (pages d). min_text_length cfg \<le> int (length (page_text p))"
    if "length (pages d) < 3 \<or> \<not> remove_headers_footers_opt cfg"
    using parse_pdf_noop_pages [OF ok rd] that len collect_pages_min [of cfg "doc_pages reader"]
    by simp
  with m show ?thesis using collect_pages_min [of cfg "doc_pages reader"] by blast
qed

theorem parse_pdf_retained_pages_witness:
  "map page_text (pages (projr (parse_pdf
       (one_file [''ACME BANK\<newline>Page one text'', ''tiny'', ''ACME BANK\<newline>Page three''])
       statement_config ''statement.pdf'')))
   = [''ACME BANK\<newline>Page one text'', ''ACME BANK\<newline>Page three'']
   \<and> list_all (\<lambda>p. 5 \<le> int (length (page_text p)))
       (pages (projr (parse_pdf
          (one_file [''ACME BANK\<newline>Page one text'', ''tiny'', ''ACME BANK\<newline>Page three''])
          statement_config ''statement.pdf'')))"
proof -
  let ?fs = "one_file [''ACME BANK\<newline>Page one text'', ''tiny'', ''ACME BANK\<newline>Page three'']"
  let ?reader = "\<lparr>doc_file_name = ''statement.pdf'', doc_file_size = Some 1024, doc_info = [],
      doc_pages = map text_page [''ACME BANK\<newline>Page one text'', ''tiny'', ''ACME BANK\<newline>Page three'']\<rparr>"
  have rd: "?fs ''statement.pdf'' = Inr ?reader" by (simp add: one_file_def)
  have ok: "parse_pdf ?fs statement_config ''statement.pdf''
            = Inr (projr (parse_pdf ?fs statement_config ''statement.pdf''))"
    by (rule parse_pdf_readable) (rule rd)
  have off: "\<not> remove_headers_footers_opt statement_config" "min_text_length statement_config = 5"
    by (simp_all add: statement_config_def)
  have "collect_pages statement_config (doc_pages ?reader)
        = [extract_text_from_page statement_config (text_page ''ACME BANK\<newline>Page one text'') 0,
           extract_text_from_page statement_config (text_page ''ACME BANK\<newline>Page three'') 2]"
    by (simp add: collect_pages_def enumerate_eq_zip extract_text_from_page_def text_page_def
        statement_config_def ex_clean_pages upt_rec Let_def)
  then have "map page_text (pages (projr (parse_pdf ?fs statement_config ''statement.pdf'')))
        = [''ACME BANK\<newline>Page one text'', ''ACME BANK\<newline>Page three'']"
    using parse_pdf_noop_pages [OF ok rd] off
    by (simp add: extract_text_from_page_def text_page_def statement_config_def ex_clean_pages Let_def)
  then show ?thesis
    using parse_pdf_retained_pages [OF ok rd] off by (simp add: list_all_iff)
qed

theorem retained_page_below_minimum:
  "map_sum id (\<lambda>d. map page_text (pages d))
     (parse_pdf (one_file [''ACME BANK STATEMENT'', ''ACME BANK STATEMENT'', ''ACME BANK STATEMENT''])
        (removal_on 10) ''statement.pdf'')
   = Inr ['''', '''', '''']
   \<and> min_text_length (removal_on 10) = 10"
  by (simp add: eval_parse ex_conf eval_removal)


section \<open>Idempotence of the normalisation\<close>

lemma split_char_nonempty: "split_char c s \<noteq> []"
  by (induction s) (auto split: list.splits)

lemma split_char_no_sep: "l \<in> set (split_char c s) \<Longrightarrow> c \<notin> set l"
proof (induction s arbitrary: l)
  case Nil
  then show ?case by simp
next
  case (Cons a s)
  show ?case
  proof (cases "a = c")
    case True
    with Cons show ?thesis by auto
  next
    case False
    obtain x xs where sp: "split_char c s = x # xs"
      using split_char_nonempty [of c s] by (cases "split_char c s") auto
    with False Cons.prems have "l = a # x \<or> l \<in> set xs" by auto
    with sp False Cons.IH show ?thesis by auto
  qed
qed

lemma join_Cons: "ls \<noteq> [] \<Longrightarrow> join sep (x # ls) = x @ sep @ join sep ls"
  by (cases ls) auto

lemma join_snoc: "ls \<noteq> [] \<Longrightarrow> join sep (ls @ [x]) = join sep ls @ sep @ x"
  by (induction sep ls rule: join.induct) auto

lemma split_char_append:
  "c \<notin> set x \<Longrightarrow> split_char c (x @ c # s) = x # split_char c s"
  by (induction x) auto

lemma split_char_line: "c \<notin> set x \<Longrightarrow> split_char c x = [x]"
  by (induction x) auto

lemma split_join:
  "ls \<noteq> [] \<Longrightarrow> \<forall>l \<in> set ls. c \<notin> set l \<Longrightarrow> split_char c (join [c] ls) = ls"
proof (induction "[c]" ls rule: join.induct)
  case 1
  then show ?case by simp
next
  case (2 x)
  then show ?case by (simp add: split_char_line)
next
  case (3 x y ys)
  then show ?case by (simp add: split_char_append)
qed

lemma join_split: "join [c] (split_char c s) = s"
proof (induction s)
  case Nil
  then show ?case by simp
next
  case (Cons a s)
  obtain x xs where sp: "split_char c s = x # xs"
    using split_char_nonempty [of c s] by (cases "split_char c s") auto
  with Cons show ?case by (cases xs) auto
qed

lemma strip_no_nl: "nl \<notin> set l \<Longrightarrow> nl \<notin> set (strip l)"
  using set_mono_sublist [OF strip_sublist [of l]] by auto

lemma isspace_nl: "isspace nl"
  by (simp add: isspace_def nl_def)

lemma strip_Nil: "strip [] = []"
  by (simp add: strip_def lstrip_def rstrip_def)

lemma tidy_Nil: "tidy []"
  by (simp add: tidy_def)

lemma tidy_snoc:
  "tidy (acc @ [l]) \<longleftrightarrow>
     tidy acc \<and> strip l = l \<and> nl \<notin> set l
     \<and> (if acc = [] then l \<noteq> [] else last acc \<noteq> [] \<or> l \<noteq> [])"
  by (auto simp: tidy_def successively_append_iff hd_append)

lemma tidy_prefix: "tidy (xs @ ys) \<Longrightarrow> tidy xs"
  by (auto simp: tidy_def successively_append_iff hd_append)

lemma clean_step_tidy: "tidy acc \<Longrightarrow> nl \<notin> set l \<Longrightarrow> tidy (clean_step acc l)"
  by (auto simp: clean_step_def Let_def tidy_snoc strip_idem strip_no_nl strip_Nil)

lemma foldl_clean_step_tidy:
  "tidy acc \<Longrightarrow> \<forall>l \<in> set ls. nl \<notin> set l \<Longrightarrow> tidy (foldl clean_step acc ls)"
  by (induction ls arbitrary: acc) (auto simp: clean_step_tidy)

lemma clean_step_fixed: "tidy (acc @ [l]) \<Longrightarrow> clean_step acc l = acc @ [l]"
  by (auto simp: clean_step_def Let_def tidy_snoc split: if_splits)

lemma foldl_clean_step_fixed: "tidy (acc @ ls) \<Longrightarrow> foldl clean_step acc ls = acc @ ls"
proof (induction ls arbitrary: acc)
  case Nil
  then show ?case by simp
next
  case (Cons l ls)
  from Cons.prems have t: "tidy ((acc @ [l]) @ ls)" by simp
  then have "tidy (acc @ [l])" by (rule tidy_prefix)
  then have "clean_step acc l = acc @ [l]" by (rule clean_step_fixed)
  with Cons.IH [OF t] show ?case by simp
qed

lemma contains_skip_line:
  "nl \<notin> set x \<Longrightarrow> contains (nl # p) (x @ t) = contains (nl # p) t"
  by (induction x) auto

lemma join_hd: "z \<noteq> [] \<Longrightarrow> join sep (z # zs) = hd z # tl z @ (if zs = [] then [] else sep @ join sep zs)"
  by (cases zs) auto

lemma no_double_nl_prefix:
  assumes "list_all (\<lambda>l. nl \<notin> set l) (y # ys)"
    and "successively (\<lambda>a b. a \<noteq> [] \<or> b \<noteq> []) (y # ys)"
  shows "\<not> prefix [nl, nl] (join [nl] (y # ys))"
proof (cases "y = []")
  case False
  with assms(1) have "hd y \<noteq> nl" by (cases y) auto
  with False show ?thesis by (simp add: join_hd)
next
  case True
  show ?thesis
  proof (cases ys)
    case Nil
    with True show ?thesis by simp
  next
    case (Cons z zs)
    with True assms(2) have z: "z \<noteq> []" by simp
    with assms(1) Cons have "hd z \<noteq> nl" by (cases z) auto
    with True Cons z show ?thesis by (simp add: join_hd)
  qed
qed

lemma join_no_triple:
  "list_all (\<lambda>l. nl \<notin> set l) ls \<Longrightarrow> successively (\<lambda>a b. a \<noteq> [] \<or> b \<noteq> []) ls \<Longrightarrow>
   \<not> contains [nl, nl, nl] (join [nl] ls)"
proof (induction "[nl]" ls rule: join.induct)
  case 1
  then show ?case by simp
next
  case (2 x)
  then show ?case using contains_skip_line [of x "[nl, nl]" "[]"] by simp
next
  case (3 x y ys)
  from 3 have ih: "\<not> contains [nl, nl, nl] (join [nl] (y # ys))" by simp
  from 3 have "\<not> prefix [nl, nl] (join [nl] (y # ys))"
    using no_double_nl_prefix [of y ys] by simp
  with ih have "\<not> contains [nl, nl, nl] (nl # join [nl] (y # ys))" by simp
  moreover from 3 have "nl \<notin> set x" by simp
  ultimately show ?case
    using contains_skip_line [of x "[nl, nl]" "nl # join [nl] (y # ys)"] by simp
qed

lemma tidy_join_collapse: "tidy ls \<Longrightarrow> collapse_blank_lines (join [nl] ls) = join [nl] ls"
proof -
  assume t: "tidy ls"
  then have "list_all (\<lambda>l. nl \<notin> set l) ls"
    by (auto simp: tidy_def list_all_iff)
  with t have "\<not> contains [nl, nl, nl] (join [nl] ls)"
    using join_no_triple [of ls] by (simp add: tidy_def)
  then show ?thesis by (subst collapse_blank_lines.simps) simp
qed

lemma join_last:
  "ls \<noteq> [] \<Longrightarrow> last ls \<noteq> [] \<Longrightarrow> join sep ls \<noteq> [] \<and> last (join sep ls) = last (last ls)"
  by (induction sep ls rule: join.induct) auto

lemma join_first:
  "ls \<noteq> [] \<Longrightarrow> hd ls \<noteq> [] \<Longrightarrow> join sep ls \<noteq> [] \<and> hd (join sep ls) = hd (hd ls)"
  by (cases ls) (auto simp: join_hd)

lemma tidy_line: "tidy ls \<Longrightarrow> l \<in> set ls \<Longrightarrow> strip l = l \<and> nl \<notin> set l"
  by (auto simp: tidy_def list_all_iff)

lemma strip_join_normal:
  assumes "tidy body" and "body \<noteq> []" and "last body \<noteq> []"
  shows "strip (join [nl] body) = join [nl] body"
proof -
  from assms(1,2) have h: "hd body \<noteq> []" by (auto simp: tidy_def)
  from assms(1,2) have "strip (hd body) = hd body" "strip (last body) = last body"
    using tidy_line [of body] by simp_all
  with h assms(3) have "\<not> isspace (hd (hd body))" "\<not> isspace (last (last body))"
    by (auto simp: strip_fixed)
  then show ?thesis
    using join_first [OF assms(2) h, of "[nl]"] join_last [OF assms(2,3), of "[nl]"]
    by (simp add: strip_fixed)
qed

lemma rstrip_snoc_nl: "rstrip (s @ [nl]) = rstrip s"
  by (simp add: rstrip_def isspace_nl)

lemma tidy_blank_end:
  assumes "tidy out" and "out \<noteq> []" and "last out = []"
  shows "tidy (butlast out) \<and> butlast out \<noteq> [] \<and> last (butlast out) \<noteq> []"
proof -
  from assms(2,3) have "out = butlast out @ [[]]" by (metis append_butlast_last_id)
  with assms(1) have "tidy (butlast out @ [[]])" by simp
  then show ?thesis by (auto simp: tidy_snoc split: if_splits)
qed

lemma strip_join_tidy:
  assumes "tidy out" and "out \<noteq> []"
  shows "strip (join [nl] out) = join [nl] (if last out = [] then butlast out else out)"
proof (cases "last out = []")
  case False
  with assms show ?thesis by (simp add: strip_join_normal)
next
  case True
  let ?b = "butlast out"
  have b: "tidy ?b" "?b \<noteq> []" "last ?b \<noteq> []"
    using tidy_blank_end [OF assms True] by simp_all
  from assms(2) True have "out = ?b @ [[]]" by (metis append_butlast_last_id)
  then have "join [nl] out = join [nl] ?b @ [nl]"
    using join_snoc [OF b(2), of "[nl]" "[]"] by simp
  then have "strip (join [nl] out) = strip (join [nl] ?b)"
    by (simp add: strip_def rstrip_snoc_nl)
  with b True show ?thesis by (simp add: strip_join_normal)
qed

lemma clean_text_normal:
  assumes "tidy body" and "body \<noteq> []" and "last body \<noteq> []"
  shows "clean_text (join [nl] body) = join [nl] body"
proof -
  from assms(1,2) have h: "hd body \<noteq> []" by (auto simp: tidy_def)
  have ne: "join [nl] body \<noteq> []" using join_first [OF assms(2) h] by simp
  have "\<forall>l \<in> set body. nl \<notin> set l" using tidy_line [OF assms(1)] by simp
  then have sp: "split_char nl (join [nl] body) = body" using assms(2) by (simp add: split_join)
  have fx: "foldl clean_step [] body = body"
    using foldl_clean_step_fixed [of "[]" body] assms(1) by simp
  show ?thesis
    using ne sp fx tidy_join_collapse [OF assms(1)] strip_join_normal [OF assms]
    by (simp add: clean_text_def Let_def)
qed

lemma clean_text_shape:
  "clean_text t = [] \<or> (\<exists>body. tidy body \<and> body \<noteq> [] \<and> last body \<noteq> [] \<and> clean_text t = join [nl] body)"
proof (cases "t = []")
  case True
  then show ?thesis by (simp add: clean_text_def)
next
  case False
  define out where "out = foldl clean_step [] (split_char nl t)"
  have t: "tidy out"
    unfolding out_def using foldl_clean_step_tidy [of "[]" "split_char nl t"] split_char_no_sep [of _ nl t]
    by (auto simp: tidy_Nil)
  have ct: "clean_text t = strip (join [nl] out)"
    using False tidy_join_collapse [OF t] by (simp add: clean_text_def Let_def out_def)
  show ?thesis
  proof (cases "out = []")
    case True
    with ct show ?thesis by (simp add: strip_Nil)
  next
    case ne: False
    let ?body = "if last out = [] then butlast out else out"
    have "tidy ?body \<and> ?body \<noteq> [] \<and> last ?body \<noteq> []"
      using tidy_blank_end [OF t ne] t ne by auto
    moreover have "clean_text t = join [nl] ?body"
      using ct strip_join_tidy [OF t ne] by simp
    ultimately show ?thesis by blast
  qed
qed

text \<open>
  Claim C5. \<open>_clean_text\<close> is idempotent: cleaning a text that \<open>_clean_text\<close> returned
  gives the same text.
\<close>

theorem clean_text_idempotent: "clean_text (clean_text t) = clean_text t"
proof -
  have e: "clean_text [] = []" by (simp add: clean_text_def)
  from clean_text_shape [of t] show ?thesis
  proof
    assume "clean_text t = []"
    with e show ?thesis by simp
  next
    assume "\<exists>body. tidy body \<and> body \<noteq> [] \<and> last body \<noteq> [] \<and> clean_text t = join [nl] body"
    then obtain body where "tidy body" "body \<noteq> []" "last body \<noteq> []"
      and "clean_text t = join [nl] body" by blast
    then show ?thesis using clean_text_normal [of body] by simp
  qed
qed

theorem clean_text_idempotent_witness:
  "clean_text ''  Statement  \<newline>\<newline>\<newline>\<newline> total due \<newline>  '' = ''Statement\<newline>\<newline>total due''
   \<and> clean_text ''Statement\<newline>\<newline>total due'' = ''Statement\<newline>\<newline>total due''"
  using clean_text_idempotent [of "''  Statement  \<newline>\<newline>\<newline>\<newline> total due \<newline>  ''"]
  by (simp add: eval_clean)


end
